theory Spec2Isabelle
  imports Main
begin

section \<open>Strings\<close>

text \<open>
  A JavaScript string is modelled as a \<^typ>\<open>string\<close>; every \<^typ>\<open>char\<close> stands for one
  code unit below 256 (Basic Latin and Latin-1 Supplement).
\<close>

text \<open>
  Lower case of one code unit: the capital letters \<open>A\<close> to \<open>Z\<close> (65 to 90) and the capital
  letters of Latin-1 (192 to 222 without the multiplication sign 215) become the letter
  32 places further on, which is the same code unit with bit 5 set; every other code unit
  stays as it is.
\<close>

fun toLowerChar :: "char \<Rightarrow> char" where
  "toLowerChar (Char b0 b1 b2 b3 b4 b5 b6 b7) =
     (let n = of_char (Char b0 b1 b2 b3 b4 b5 b6 b7) :: nat
      in if (65 \<le> n \<and> n \<le> 90) \<or> (192 \<le> n \<and> n \<le> 222 \<and> n \<noteq> 215)
         then Char b0 b1 b2 b3 b4 True b6 b7
         else Char b0 b1 b2 b3 b4 b5 b6 b7)"

text \<open>\<^verbatim>\<open>s.toLowerCase()\<close>\<close>

definition toLowerCase :: "string \<Rightarrow> string" where
  "toLowerCase s = map toLowerChar s"

text \<open>\<^verbatim>\<open>s.endsWith(suffix)\<close>\<close>

definition endsWith :: "string \<Rightarrow> string \<Rightarrow> bool" where
  "endsWith s suffix = (length suffix \<le> length s \<and> drop (length s - length suffix) s = suffix)"

text \<open>\<^verbatim>\<open>s.includes(sub)\<close>\<close>

fun includesStr :: "string \<Rightarrow> string \<Rightarrow> bool" where
  "includesStr [] sub = (sub = [])"
| "includesStr (c # cs) sub = (take (length sub) (c # cs) = sub \<or> includesStr cs sub)"

text \<open>
  \<^verbatim>\<open>s.split(sep)\<close> for a string separator: the pieces between the successive
  non-overlapping occurrences of \<open>sep\<close>, found from left to right. \<open>cur\<close> is the piece
  being collected.
\<close>

function splitFrom :: "string \<Rightarrow> string \<Rightarrow> string \<Rightarrow> string list" where
  "splitFrom sep cur s =
     (if s = [] then [cur]
      else if sep \<noteq> [] \<and> take (length sep) s = sep
           then cur # splitFrom sep [] (drop (length sep) s)
           else splitFrom sep (cur @ [hd s]) (tl s))"
  by pat_completeness auto
termination
  by (relation "measure (\<lambda>(sep, cur, s). length s)") auto

declare splitFrom.simps [simp del]

definition split :: "string \<Rightarrow> string \<Rightarrow> string list" where
  "split s sep = (if sep = [] then map (\<lambda>c. [c]) s else splitFrom sep [] s)"

text \<open>The decimal digits of a number, as a template literal prints it.\<close>

definition digitChar :: "nat \<Rightarrow> char" where
  "digitChar d = ''0123456789'' ! d"

fun showNat :: "nat \<Rightarrow> string" where
  "showNat n = (if n < 10 then [digitChar n] else showNat (n div 10) @ [digitChar (n mod 10)])"

declare showNat.simps [simp del]

section \<open>The test-day folder pattern\<close>

text \<open>
  The scanner tests a path segment with the regular expression
  \<^verbatim>\<open>/^(\d{4}-\d{1,2}-\d{1,2})\s*[-_]\s*(.+)$/\<close>.
  Every quantifier of it applies to a single character class, so the expression is a
  list of atoms: a class with the least and the greatest number of repetitions (\<open>None\<close>
  for no upper bound). All quantifiers are greedy.
\<close>

type_synonym atom = "(char \<Rightarrow> bool) \<times> nat \<times> nat option"

text \<open>\<^verbatim>\<open>\d\<close>\<close>

definition isDigit :: "char \<Rightarrow> bool" where
  "isDigit c = (c \<in> set ''0123456789'')"

text \<open>
  \<^verbatim>\<open>\s\<close>, the white-space code units below 256: tab, line feed, vertical tab, form feed,
  carriage return, space, no-break space.
\<close>

definition isSpace :: "char \<Rightarrow> bool" where
  "isSpace c = (c \<in> set [CHR 0x09, CHR 0x0A, CHR 0x0B, CHR 0x0C, CHR 0x0D, CHR 0x20, CHR 0xA0])"

text \<open>The dot matches every code unit but a line terminator: line feed and carriage return.\<close>

definition isLineTerminator :: "char \<Rightarrow> bool" where
  "isLineTerminator c = (c = CHR 0x0A \<or> c = CHR 0x0D)"

text \<open>
  The numbers of characters a greedy atom may take at the front of \<open>s\<close>, in the order
  in which backtracking tries them: the longest run first.
\<close>

definition candidates :: "(char \<Rightarrow> bool) \<Rightarrow> nat \<Rightarrow> nat option \<Rightarrow> string \<Rightarrow> nat list" where
  "candidates cls lo hi s =
     (let n = length (takeWhile cls s);
          m = (case hi of None \<Rightarrow> n | Some h \<Rightarrow> min h n)
      in rev [lo..<Suc m])"

text \<open>
  All the ways in which the atoms, anchored at both ends (\<^verbatim>\<open>^\<close> and \<^verbatim>\<open>$\<close>), match the
  whole of \<open>s\<close>, in backtracking order; a way is the list of the pieces taken by the atoms.
  The regular expression engine returns the first. \<open>tryEach\<close> goes through the lengths
  that the current atom may take and, for each, through the ways of the remaining atoms.
\<close>

fun matchAtoms :: "atom list \<Rightarrow> string \<Rightarrow> string list list"
  and tryEach :: "atom list \<Rightarrow> string \<Rightarrow> nat list \<Rightarrow> string list list" where
  "matchAtoms [] s = (if s = [] then [[]] else [])"
| "matchAtoms ((cls, lo, hi) # as) s = tryEach as s (candidates cls lo hi s)"
| "tryEach as s [] = []"
| "tryEach as s (k # ks) = map ((#) (take k s)) (matchAtoms as (drop k s)) @ tryEach as s ks"

definition testDayPattern :: "atom list" where
  "testDayPattern =
     [(isDigit, 4, Some 4), (\<lambda>c. c = CHR ''-'', 1, Some 1),
      (isDigit, 1, Some 2), (\<lambda>c. c = CHR ''-'', 1, Some 1),
      (isDigit, 1, Some 2),
      (isSpace, 0, None), (\<lambda>c. c = CHR ''-'' \<or> c = CHR ''_'', 1, Some 1), (isSpace, 0, None),
      (\<lambda>c. \<not> isLineTerminator c, 1, None)]"

text \<open>
  \<^verbatim>\<open>segment.match(/^(\d{4}-\d{1,2}-\d{1,2})\s*[-_]\s*(.+)$/)\<close>: \<open>None\<close> for \<^verbatim>\<open>null\<close>,
  otherwise the two capture groups: the first is what the first five atoms took, the
  second what the last atom took.
\<close>

definition matchTestDayFolder :: "string \<Rightarrow> (string \<times> string) option" where
  "matchTestDayFolder s =
     (case matchAtoms testDayPattern s of
        [] \<Rightarrow> None
      | ps # _ \<Rightarrow> Some (concat (take 5 ps), ps ! 8))"

text \<open>A piece fits an atom: its length is within the bounds and its characters are in the class.\<close>

definition fitsAtom :: "atom \<Rightarrow> string \<Rightarrow> bool" where
  "fitsAtom a p = (case a of (cls, lo, hi) \<Rightarrow>
     lo \<le> length p \<and> (\<forall>x \<in> set p. cls x) \<and> (case hi of None \<Rightarrow> True | Some h \<Rightarrow> length p \<le> h))"

text \<open>
  The order of backtracking on the lengths of the pieces: the way \<open>ds\<close> is tried no earlier
  than the way \<open>hs\<close> when, at the first atom where they differ, \<open>ds\<close> takes fewer characters.
\<close>

fun notPreferred :: "nat list \<Rightarrow> nat list \<Rightarrow> bool" where
  "notPreferred (d # ds) (h # hs) = (d < h \<or> (d = h \<and> notPreferred ds hs))"
| "notPreferred _ _ = True"

text \<open>
  The segment \<open>s\<close> cut into the parts that the atoms take: year, month, day, white space,
  separator, white space, venue.
\<close>

definition testDayParts ::
  "string \<Rightarrow> string \<Rightarrow> string \<Rightarrow> string \<Rightarrow> string \<Rightarrow> char \<Rightarrow> string \<Rightarrow> string \<Rightarrow> bool" where
  "testDayParts s y m dd w1 sep w2 v \<longleftrightarrow>
     s = y @ ''-'' @ m @ ''-'' @ dd @ w1 @ [sep] @ w2 @ v \<and>
     length y = 4 \<and> (\<forall>c \<in> set y. isDigit c) \<and>
     (length m = 1 \<or> length m = 2) \<and> (\<forall>c \<in> set m. isDigit c) \<and>
     (length dd = 1 \<or> length dd = 2) \<and> (\<forall>c \<in> set dd. isDigit c) \<and>
     (\<forall>c \<in> set w1. isSpace c) \<and> (sep = CHR ''-'' \<or> sep = CHR ''_'') \<and>
     (\<forall>c \<in> set w2. isSpace c) \<and>
     v \<noteq> [] \<and> (\<forall>c \<in> set v. \<not> isLineTerminator c)"

text \<open>
  The pattern as the specification words it, for comparison with the code's: optional
  white space at both ends, a year of four digits, a month and a day of one or two digits,
  one or more separators \<open>-\<close> or \<open>_\<close> with optional white space around them, and a venue
  that is not empty and is trimmed.
\<close>

definition spec_matchTestDayFolder :: "string \<Rightarrow> string \<Rightarrow> string \<Rightarrow> bool" where
  "spec_matchTestDayFolder s d v \<longleftrightarrow>
     (\<exists>lead y m dd w1 seps w2 trail.
        s = lead @ y @ ''-'' @ m @ ''-'' @ dd @ w1 @ seps @ w2 @ v @ trail \<and>
        d = y @ ''-'' @ m @ ''-'' @ dd \<and>
        (\<forall>c \<in> set lead. isSpace c) \<and> (\<forall>c \<in> set trail. isSpace c) \<and>
        length y = 4 \<and> (\<forall>c \<in> set y. isDigit c) \<and>
        (length m = 1 \<or> length m = 2) \<and> (\<forall>c \<in> set m. isDigit c) \<and>
        (length dd = 1 \<or> length dd = 2) \<and> (\<forall>c \<in> set dd. isDigit c) \<and>
        (\<forall>c \<in> set w1. isSpace c) \<and> seps \<noteq> [] \<and> (\<forall>c \<in> set seps. c = CHR ''-'' \<or> c = CHR ''_'') \<and>
        (\<forall>c \<in> set w2. isSpace c) \<and>
        v \<noteq> [] \<and> \<not> isSpace (hd v) \<and> \<not> isSpace (last v))"

section \<open>Scanning the selected folder\<close>

text \<open>
  The browser's \<^verbatim>\<open>File\<close> as the scanner uses it. \<open>content\<close> is what \<^verbatim>\<open>file.text()\<close>
  resolves to, \<open>None\<close> when the read is rejected. The field \<open>file\<close> of an
  \<^verbatim>\<open>XRKFile\<close> is \<open>fileRef\<close> here.
\<close>

record File =
  name :: string
  size :: nat
  lastModified :: nat
  webkitRelativePath :: string
  content :: "string option"

record XRKFile =
  name :: string
  size :: nat
  lastModified :: nat
  path :: string
  fileRef :: File

record TestDayFolder =
  name :: string
  path :: string
  xrkFiles :: "XRKFile list"

text \<open>
  The inner loop of the scanner: the first of the segments before the file name that
  matches the pattern, the empty string when none does.
  \<^verbatim>\<open>for (let i = 0; i < pathParts.length - 1; i++) { if (match) { ...; break; } }\<close>
\<close>

definition findTestDayFolder :: "string list \<Rightarrow> string" where
  "findTestDayFolder pathParts =
     (case find (\<lambda>part. matchTestDayFolder part \<noteq> None) (butlast pathParts) of
        None \<Rightarrow> []
      | Some part \<Rightarrow> part)"

text \<open>
  \<^verbatim>\<open>directoryMap\<close> is a \<^verbatim>\<open>Map\<close>, which keeps its keys in the order of their first insertion:
  \<^verbatim>\<open>if (!directoryMap.has(k)) directoryMap.set(k, []); directoryMap.get(k).push(file);\<close>
\<close>

fun pushFile :: "string \<Rightarrow> File \<Rightarrow> (string \<times> File list) list \<Rightarrow> (string \<times> File list) list" where
  "pushFile k f [] = [(k, [f])]"
| "pushFile k f ((k', fs) # m) =
     (if k' = k then (k', fs @ [f]) # m else (k', fs) # pushFile k f m)"

text \<open>One round of the first loop, over the files; the state is \<^verbatim>\<open>directoryMap\<close> and \<^verbatim>\<open>detectedGlobalSetups\<close>.\<close>

definition scanFile ::
  "(string \<times> File list) list \<times> File list \<Rightarrow> File \<Rightarrow> (string \<times> File list) list \<times> File list" where
  "scanFile st file =
     (case st of (directoryMap, detectedGlobalSetups) \<Rightarrow>
        (let relPath = webkitRelativePath file;
             pathParts = split relPath ''/''
         in if 2 \<le> length pathParts then
              (let detected =
                     (if (includesStr (toLowerCase relPath) ''/setups/'' \<or>
                          toLowerCase (hd pathParts) = ''setups'') \<and>
                         endsWith (toLowerCase (File.name file)) ''.json''
                      then detectedGlobalSetups @ [file] else detectedGlobalSetups);
                   testDayFolder = findTestDayFolder pathParts
               in (if testDayFolder \<noteq> [] then pushFile testDayFolder file directoryMap
                   else directoryMap,
                   detected))
            else st))"

text \<open>
  The loop over the files of one test day: the telemetry files (\<^verbatim>\<open>xrkFiles\<close>, here
  \<open>xrks\<close>) and the marker flag.
\<close>

definition collectFolder :: "File list \<Rightarrow> XRKFile list \<times> bool" where
  "collectFolder files =
     foldl (\<lambda>(xrks, hasTestDayJson) file.
              if endsWith (toLowerCase (File.name file)) ''.xrk''
              then (xrks @ [\<lparr> XRKFile.name = File.name file, size = File.size file,
                                  lastModified = File.lastModified file,
                                  path = webkitRelativePath file, fileRef = file \<rparr>],
                    hasTestDayJson)
              else if toLowerCase (File.name file) = ''testday.json'' then (xrks, True)
              else (xrks, hasTestDayJson))
           ([], False) files"

text \<open>One round of the second loop, over the entries of \<^verbatim>\<open>directoryMap\<close>.\<close>

definition processFolder :: "string \<times> File list \<Rightarrow> TestDayFolder list" where
  "processFolder entry =
     (case entry of (testDayFolderName, files) \<Rightarrow>
        if matchTestDayFolder testDayFolderName \<noteq> None then
          (case collectFolder files of (xrks, hasTestDayJson) \<Rightarrow>
             if xrks \<noteq> [] \<or> hasTestDayJson
             then [\<lparr> TestDayFolder.name = testDayFolderName, path = testDayFolderName,
                      xrkFiles = xrks \<rparr>]
             else [])
        else [])"

text \<open>
  \<^verbatim>\<open>scanForTestDayFolders\<close>: the new values of the state variables \<^verbatim>\<open>testDayFolders\<close> and
  \<^verbatim>\<open>globalSetupFiles\<close>. The progress display and the scan time of the status line are
  left out.
\<close>

definition scanForTestDayFolders :: "File list \<Rightarrow> TestDayFolder list \<times> File list" where
  "scanForTestDayFolders files =
     (case foldl scanFile ([], []) files of (directoryMap, detectedGlobalSetups) \<Rightarrow>
        (concat (map processFolder directoryMap), detectedGlobalSetups))"

text \<open>The folder that a file is grouped under, the empty string when it is grouped nowhere.\<close>

definition testDayFolderOf :: "File \<Rightarrow> string" where
  "testDayFolderOf file =
     (let pathParts = split (webkitRelativePath file) ''/''
      in if 2 \<le> length pathParts then findTestDayFolder pathParts else [])"

definition isXrk :: "File \<Rightarrow> bool" where
  "isXrk file = endsWith (toLowerCase (File.name file)) ''.xrk''"

definition isTestDayJson :: "File \<Rightarrow> bool" where
  "isTestDayJson file = (toLowerCase (File.name file) = ''testday.json'')"

definition toXRKFile :: "File \<Rightarrow> XRKFile" where
  "toXRKFile file = \<lparr> XRKFile.name = File.name file, size = File.size file,
     lastModified = File.lastModified file, path = webkitRelativePath file, fileRef = file \<rparr>"

text \<open>What one round of the first loop does to \<^verbatim>\<open>directoryMap\<close>.\<close>

definition groupStep :: "(string \<times> File list) list \<Rightarrow> File \<Rightarrow> (string \<times> File list) list" where
  "groupStep dm f = (if testDayFolderOf f \<noteq> [] then pushFile (testDayFolderOf f) f dm else dm)"

text \<open>A file for the closed statements, given by its relative path and its name.\<close>

definition fileNamed :: "string \<Rightarrow> string \<Rightarrow> File" where
  "fileNamed p n = \<lparr> File.name = n, size = 1024, lastModified = 5000,
     webkitRelativePath = p, content = None \<rparr>"

section \<open>The dashboard's data\<close>

text \<open>
  The record types of \<^verbatim>\<open>UTFRDataDashboard.tsx\<close>. A test day that comes from the folder
  import carries one more property, \<open>runs\<close> (the number of new runs). Of a run, the fields
  that the folder import writes are listed; the optional measurement fields (stint,
  weather, pressures, state of charge, data links), which no function below reads, are
  kept together in \<open>rest\<close>. Of a setup, the configuration groups are kept in \<open>groups\<close>.
  The source's field \<open>notes\<close> is \<open>dayNotes\<close>, \<open>runNotes\<close> and \<open>tireNotes\<close> here.
\<close>

record TestDay =
  id :: string
  date :: string
  track :: string
  sessionLead :: "string option"
  weatherPlan :: "string option"
  runPlan :: "string option"
  crew :: "string list option"
  dayNotes :: "string option"
  driveFolderUrl :: "string option"
  runs :: "nat option"

record 'm Run =
  id :: string
  testDayId :: string
  runNumber :: nat
  timestamp :: string
  track :: string
  drivers :: "string list"
  runNotes :: "string option"
  tags :: "string list option"
  rest :: "'m option"

record 'g SetupSnapshot =
  id :: string
  name :: string
  basedOn :: "string option"
  setupGoal :: "string option"
  groups :: 'g

record TireSet =
  id :: string
  compound :: "string option"
  size :: "string option"
  tireNotes :: "string option"

text \<open>The four state variables of the dashboard component.\<close>

record ('m, 'g) Dataset =
  days :: "TestDay list"
  runs :: "'m Run list"
  setups :: "'g SetupSnapshot list"
  tires :: "TireSet list"

text \<open>The object handed to \<^verbatim>\<open>onDataImported\<close>.\<close>

record ('m, 'g) ImportedData =
  testDays :: "TestDay list"
  runs :: "'m Run list"
  setups :: "'g SetupSnapshot list"
  tireSets :: "TireSet list"

section \<open>Merging an import into the dataset\<close>

text \<open>
  One state updater of \<^verbatim>\<open>handleDataImported\<close>:
  \<^verbatim>\<open>prev => { const existing = new Set(prev.map(d => d.id));
             const newDays = imported.filter(d => !existing.has(d.id));
             return [...prev, ...newDays]; }\<close>
  The same updater is written out four times in the source, once per collection; \<open>ident\<close>
  is the \<open>id\<close> field of the collection's record.
\<close>

definition mergeNew :: "('a \<Rightarrow> string) \<Rightarrow> 'a list \<Rightarrow> 'a list \<Rightarrow> 'a list" where
  "mergeNew ident prev imported =
     (let existing = set (map ident prev);
          new = filter (\<lambda>d. ident d \<notin> existing) imported
      in prev @ new)"

text \<open>
  \<^verbatim>\<open>handleDataImported\<close>: each collection is updated only when the imported list is
  present and not empty.
\<close>

definition handleDataImported ::
  "('m, 'g) Dataset \<Rightarrow> ('m, 'g) ImportedData \<Rightarrow> ('m, 'g) Dataset" where
  "handleDataImported st importedData =
     \<lparr> days = (if testDays importedData \<noteq> []
               then mergeNew TestDay.id (days st) (testDays importedData) else days st),
       runs = (if ImportedData.runs importedData \<noteq> []
               then mergeNew Run.id (Dataset.runs st) (ImportedData.runs importedData)
               else Dataset.runs st),
       setups = (if ImportedData.setups importedData \<noteq> []
                 then mergeNew SetupSnapshot.id (Dataset.setups st) (ImportedData.setups importedData)
                 else Dataset.setups st),
       tires = (if tireSets importedData \<noteq> []
                then mergeNew TireSet.id (tires st) (tireSets importedData) else tires st) \<rparr>"

section \<open>Importing a test day\<close>

text \<open>\<^verbatim>\<open>testDay.name.split(' - ')[0]\<close>\<close>

definition dateOf :: "string \<Rightarrow> string" where
  "dateOf folderName = (case split folderName '' - '' of [] \<Rightarrow> [] | d # _ \<Rightarrow> d)"

text \<open>\<^verbatim>\<open>testDay.name.split(' - ')[1] || 'Unknown'\<close>\<close>

definition trackOf :: "string \<Rightarrow> string" where
  "trackOf folderName =
     (case split folderName '' - '' of
        _ # t # _ \<Rightarrow> if t = [] then ''Unknown'' else t
      | _ \<Rightarrow> ''Unknown'')"

text \<open>
  \<^verbatim>\<open>newRuns.forEach((_, idx) => { const f = testDay.xrkFiles[idx];
                              if (f) importedRunPathsRef.current.add(f.path); })\<close>
  with \<open>n\<close> the number of new runs: the index runs over the new runs and is used in the
  list of all telemetry files of the folder.
\<close>

definition markImported :: "nat \<Rightarrow> XRKFile list \<Rightarrow> string set \<Rightarrow> string set" where
  "markImported n xs importedRunPaths =
     fold (\<lambda>idx paths. if idx < length xs then insert (XRKFile.path (xs ! idx)) paths else paths)
       [0..<n] importedRunPaths"

text \<open>
  \<^verbatim>\<open>importTestDayData\<close>. The state it reads and writes is the set
  \<^verbatim>\<open>importedRunPathsRef.current\<close>; \<open>clock index\<close> is what \<^verbatim>\<open>new Date().toISOString()\<close>
  returns while the run with that index is built. The result is the object passed to
  \<^verbatim>\<open>onDataImported\<close> and the new set.
\<close>

definition importTestDayData ::
  "(nat \<Rightarrow> string) \<Rightarrow> string set \<Rightarrow> TestDayFolder \<Rightarrow> ('m, 'g) ImportedData \<times> string set" where
  "importTestDayData clock importedRunPaths testDay =
     (let newRuns =
            map (\<lambda>(index, f).
                   \<lparr> Run.id = ''local-'' @ TestDayFolder.name testDay @ ''-'' @ showNat (index + 1),
                     testDayId = ''local-'' @ TestDayFolder.name testDay,
                     runNumber = index + 1,
                     timestamp = clock index,
                     track = trackOf (TestDayFolder.name testDay),
                     drivers = [''Unknown''],
                     runNotes = Some (''Imported from '' @ XRKFile.name f),
                     tags = Some [''imported'', ''xrk''],
                     rest = None \<rparr>)
              (enumerate 0 (filter (\<lambda>f. XRKFile.path f \<notin> importedRunPaths) (xrkFiles testDay)));
          marked = markImported (length newRuns) (xrkFiles testDay) importedRunPaths;
          importedData =
            \<lparr> testDays = [\<lparr> TestDay.id = ''local-'' @ TestDayFolder.name testDay,
                            date = dateOf (TestDayFolder.name testDay),
                            track = trackOf (TestDayFolder.name testDay),
                            sessionLead = None, weatherPlan = None, runPlan = None, crew = None,
                            dayNotes = None, driveFolderUrl = None,
                            runs = Some (length newRuns) \<rparr>],
              runs = newRuns, setups = [], tireSets = [] \<rparr>
      in (importedData, marked))"

text \<open>
  The import of a test day together with the call \<^verbatim>\<open>onDataImported(importedData)\<close> that
  ends it: the state is the importer's set of paths and the dashboard's dataset.
\<close>

definition importAndMerge ::
  "(nat \<Rightarrow> string) \<Rightarrow> string set \<times> ('m, 'g) Dataset \<Rightarrow> TestDayFolder \<Rightarrow> string set \<times> ('m, 'g) Dataset" where
  "importAndMerge clock st testDay =
     (case importTestDayData clock (fst st) testDay of
        (importedData, marked) \<Rightarrow> (marked, handleDataImported (snd st) importedData))"

section \<open>Importing the global setups\<close>












section \<open>Examples\<close>

text \<open>Example records for the closed statements below.\<close>

definition emptyDataset :: "(unit, unit) Dataset" where
  "emptyDataset = \<lparr> days = [], runs = [], setups = [], tires = [] \<rparr>"

definition exampleSetup :: "string \<Rightarrow> string \<Rightarrow> unit SetupSnapshot" where
  "exampleSetup i n = \<lparr> SetupSnapshot.id = i, name = n, basedOn = None, setupGoal = None, groups = () \<rparr>"

definition exampleRun :: "string \<Rightarrow> nat \<Rightarrow> unit Run" where
  "exampleRun i n = \<lparr> Run.id = i, testDayId = ''TD-1'', runNumber = n,
     timestamp = ''2025-04-11T10:00:00.000Z'', track = ''Villa'', drivers = [''Unknown''],
     runNotes = None, tags = None, rest = None \<rparr>"

definition setupsOnly :: "unit SetupSnapshot list \<Rightarrow> (unit, unit) ImportedData" where
  "setupsOnly ss = \<lparr> testDays = [], runs = [], setups = ss, tireSets = [] \<rparr>"

definition runsOnly :: "unit Run list \<Rightarrow> (unit, unit) ImportedData" where
  "runsOnly rs = \<lparr> testDays = [], ImportedData.runs = rs, setups = [], tireSets = [] \<rparr>"

text \<open>Two clock readings, and a folder before and after two telemetry files are added.\<close>

definition noon :: "nat \<Rightarrow> string" where
  "noon k = ''2025-04-11T12:00:00.000Z''"

definition evening :: "nat \<Rightarrow> string" where
  "evening k = ''2025-04-11T18:30:00.000Z''"

definition villaFiles :: "File list" where
  "villaFiles =
     [fileNamed ''2025-4-11 - Villa/datadump/run1.xrk'' ''run1.xrk'',
      fileNamed ''2025-4-11 - Villa/datadump/run2.xrk'' ''run2.xrk'']"

definition villaFilesLater :: "File list" where
  "villaFilesLater = villaFiles @
     [fileNamed ''2025-4-11 - Villa/datadump/run3.xrk'' ''run3.xrk'',
      fileNamed ''2025-4-11 - Villa/datadump/run4.xrk'' ''run4.xrk'']"

definition villaFolder :: TestDayFolder where
  "villaFolder = \<lparr> TestDayFolder.name = ''2025-4-11 - Villa'', path = ''2025-4-11 - Villa'',
     xrkFiles = map toXRKFile villaFiles \<rparr>"

definition villaFolderLater :: TestDayFolder where
  "villaFolderLater = \<lparr> TestDayFolder.name = ''2025-4-11 - Villa'', path = ''2025-4-11 - Villa'',
     xrkFiles = map toXRKFile villaFilesLater \<rparr>"


text \<open>
  A folder that holds only the marker file, beside a file outside every test day; and a
  telemetry file below two nested folders that both match the pattern.
\<close>

definition mosportFiles :: "File list" where
  "mosportFiles =
     [fileNamed ''root/2025-5-1_Mosport/testday.json'' ''testday.json'',
      fileNamed ''root/notes/readme.txt'' ''readme.txt'']"

definition nestedRun :: File where
  "nestedRun = fileNamed ''2025-4-11 - Villa/2025-4-12 - Mosport/run1.xrk'' ''run1.xrk''"







section \<open>Properties of the folder pattern\<close>

lemma le_length_takeWhile:
  "k \<le> length (takeWhile P s) \<longleftrightarrow> k \<le> length s \<and> (\<forall>x \<in> set (take k s). P x)"
proof (induction s arbitrary: k)
  case Nil
  then show ?case by simp
next
  case (Cons a s)
  then show ?case by (cases k) auto
qed

lemma candidates_iff:
  "k \<in> set (candidates cls lo hi s) \<longleftrightarrow>
     lo \<le> k \<and> k \<le> length s \<and> (\<forall>x \<in> set (take k s). cls x) \<and>
     (case hi of None \<Rightarrow> True | Some h \<Rightarrow> k \<le> h)"
  using le_length_takeWhile [of k cls s]
  by (auto simp: candidates_def Let_def split: option.splits)

lemma tryEach_concat:
  "tryEach as s ks = concat (map (\<lambda>k. map ((#) (take k s)) (matchAtoms as (drop k s))) ks)"
  by (induction ks) simp_all

lemma matchAtoms_Cons:
  "matchAtoms ((cls, lo, hi) # as) s =
     concat (map (\<lambda>k. map ((#) (take k s)) (matchAtoms as (drop k s))) (candidates cls lo hi s))"
  by (simp add: tryEach_concat)

lemma matchAtoms_iff:
  "ps \<in> set (matchAtoms as s) \<longleftrightarrow> list_all2 fitsAtom as ps \<and> concat ps = s"
proof (induction as arbitrary: ps s)
  case Nil
  then show ?case by auto
next
  case (Cons a as)
  obtain cls lo hi where a: "a = (cls, lo, hi)" by (cases a)
  show ?case
  proof
    assume "ps \<in> set (matchAtoms (a # as) s)"
    then obtain k ps' where k: "k \<in> set (candidates cls lo hi s)"
      and ps': "ps' \<in> set (matchAtoms as (drop k s))" and ps: "ps = take k s # ps'"
      by (auto simp: a matchAtoms_Cons simp del: matchAtoms.simps)
    from ps' Cons.IH have "list_all2 fitsAtom as ps'" "concat ps' = drop k s" by auto
    moreover from k have "fitsAtom a (take k s)"
      by (auto simp: candidates_iff fitsAtom_def a split: option.splits)
    ultimately show "list_all2 fitsAtom (a # as) ps \<and> concat ps = s"
      by (simp add: ps)
  next
    assume r: "list_all2 fitsAtom (a # as) ps \<and> concat ps = s"
    then obtain p ps' where ps: "ps = p # ps'" and p: "fitsAtom a p"
      and ps': "list_all2 fitsAtom as ps'"
      by (auto simp: list_all2_Cons1)
    from r ps have s: "s = p @ concat ps'" by simp
    have "length p \<in> set (candidates cls lo hi s)"
      using p by (auto simp: candidates_iff fitsAtom_def a s split: option.splits)
    moreover have "ps' \<in> set (matchAtoms as (drop (length p) s))"
      using ps' Cons.IH by (simp add: s)
    moreover have "take (length p) s = p" by (simp add: s)
    ultimately show "ps \<in> set (matchAtoms (a # as) s)"
      by (force simp: a ps matchAtoms_Cons simp del: matchAtoms.simps)
  qed
qed

lemma concat_map_Cons:
  "concat (map f ks) = x # r \<Longrightarrow>
     \<exists>ks1 k ks2 r'. ks = ks1 @ k # ks2 \<and> (\<forall>j \<in> set ks1. f j = []) \<and> f k = x # r'"
proof (induction ks)
  case Nil
  then show ?case by simp
next
  case (Cons k ks)
  show ?case
  proof (cases "f k")
    case Nil
    with Cons.prems have "concat (map f ks) = x # r" by simp
    from Cons.IH [OF this] obtain ks1 k' ks2 r' where
      "ks = ks1 @ k' # ks2" "\<forall>j \<in> set ks1. f j = []" "f k' = x # r'" by blast
    with Nil have "k # ks = (k # ks1) @ k' # ks2 \<and> (\<forall>j \<in> set (k # ks1). f j = []) \<and> f k' = x # r'"
      by simp
    then show ?thesis by blast
  next
    case (Cons y ys)
    with Cons.prems have "f k = x # ys" by simp
    then have "k # ks = [] @ k # ks \<and> (\<forall>j \<in> set []. f j = []) \<and> f k = x # ys" by simp
    then show ?thesis by blast
  qed
qed

lemma candidates_decreasing:
  assumes "candidates cls lo hi s = ks1 @ k # ks2" and "j \<in> set ks2"
  shows "j < k"
proof -
  have "sorted_wrt (>) (candidates cls lo hi s)"
    by (simp add: candidates_def Let_def sorted_wrt_rev del: upt_Suc)
  with assms show ?thesis by (auto simp: sorted_wrt_append)
qed

lemma matchAtoms_first:
  "matchAtoms as s = H # others \<Longrightarrow> D \<in> set (matchAtoms as s) \<Longrightarrow>
     notPreferred (map length D) (map length H)"
proof (induction as arbitrary: s H others D)
  case Nil
  then show ?case by (auto split: if_splits)
next
  case (Cons a as)
  obtain cls lo hi where a: "a = (cls, lo, hi)" by (cases a)
  define f where "f = (\<lambda>k. map ((#) (take k s)) (matchAtoms as (drop k s)))"
  from Cons.prems(1) have "concat (map f (candidates cls lo hi s)) = H # others"
    by (simp add: a f_def matchAtoms_Cons del: matchAtoms.simps)
  from concat_map_Cons [OF this] obtain ks1 k ks2 r' where
    ks: "candidates cls lo hi s = ks1 @ k # ks2" and none: "\<forall>j \<in> set ks1. f j = []"
    and fk: "f k = H # r'" by blast
  from fk obtain H' r'' where H: "H = take k s # H'" and H': "matchAtoms as (drop k s) = H' # r''"
    by (auto simp: f_def map_eq_Cons_conv)
  from Cons.prems(2) obtain kd D' where kd: "kd \<in> set (candidates cls lo hi s)"
    and D': "D' \<in> set (matchAtoms as (drop kd s))" and D: "D = take kd s # D'"
    by (auto simp: a matchAtoms_Cons simp del: matchAtoms.simps)
  from D' have "f kd \<noteq> []" by (auto simp: f_def)
  with none have "kd \<notin> set ks1" by blast
  with kd ks have "kd = k \<or> kd \<in> set ks2" by auto
  moreover have "k \<in> set (candidates cls lo hi s)" using ks by simp
  then have klen: "k \<le> length s" by (simp add: candidates_iff)
  moreover from kd have kdlen: "kd \<le> length s" by (simp add: candidates_iff)
  ultimately show ?case
  proof (elim disjE)
    assume "kd = k"
    with D' H' Cons.IH have "notPreferred (map length D') (map length H')" by blast
    with \<open>kd = k\<close> show ?thesis by (simp add: D H)
  next
    assume "kd \<in> set ks2"
    with ks have "kd < k" by (rule candidates_decreasing)
    with klen kdlen show ?thesis by (simp add: D H min_def)
  qed
qed


lemma one_char: "1 \<le> length p \<and> (\<forall>x \<in> set p. P x) \<and> length p \<le> 1 \<longleftrightarrow> (\<exists>c. p = [c] \<and> P c)"
  by (cases p) auto

lemma one_or_two: "Suc 0 \<le> length p \<and> length p \<le> 2 \<longleftrightarrow> length p = 1 \<or> length p = 2"
  by auto

lemma fitsAtom_exact: "fitsAtom (P, Suc 0, Some (Suc 0)) p \<longleftrightarrow> (\<exists>c. p = [c] \<and> P c)"
  using one_char [of p P] by (auto simp: fitsAtom_def)

lemma fitsAtom_one_two:
  "fitsAtom (P, Suc 0, Some 2) p \<longleftrightarrow> (length p = 1 \<or> length p = 2) \<and> (\<forall>c \<in> set p. P c)"
  by (auto simp: fitsAtom_def)

lemma fitsAtom_four: "fitsAtom (P, 4, Some 4) p \<longleftrightarrow> length p = 4 \<and> (\<forall>c \<in> set p. P c)"
  by (auto simp: fitsAtom_def)

lemma fitsAtom_star: "fitsAtom (P, 0, None) p \<longleftrightarrow> (\<forall>c \<in> set p. P c)"
  by (simp add: fitsAtom_def)

lemma fitsAtom_plus: "fitsAtom (P, Suc 0, None) p \<longleftrightarrow> p \<noteq> [] \<and> (\<forall>c \<in> set p. P c)"
  by (cases p) (simp_all add: fitsAtom_def)

lemma pattern_ways:
  "ps \<in> set (matchAtoms testDayPattern s) \<longleftrightarrow>
     (\<exists>y m dd w1 sep w2 v. ps = [y, ''-'', m, ''-'', dd, w1, [sep], w2, v] \<and>
        testDayParts s y m dd w1 sep w2 v)"
  (is "?L \<longleftrightarrow> ?R")
proof
  assume ?L
  then have f: "list_all2 fitsAtom testDayPattern ps" and c: "concat ps = s"
    by (simp_all add: matchAtoms_iff)
  from f obtain y d1 m d2 dd w1 sp w2 v where ps: "ps = [y, d1, m, d2, dd, w1, sp, w2, v]"
    and fy: "fitsAtom (isDigit, 4, Some 4) y" and f1: "fitsAtom (\<lambda>c. c = CHR ''-'', 1, Some 1) d1"
    and fm: "fitsAtom (isDigit, 1, Some 2) m" and f2: "fitsAtom (\<lambda>c. c = CHR ''-'', 1, Some 1) d2"
    and fd: "fitsAtom (isDigit, 1, Some 2) dd" and fw1: "fitsAtom (isSpace, 0, None) w1"
    and fs: "fitsAtom (\<lambda>c. c = CHR ''-'' \<or> c = CHR ''_'', 1, Some 1) sp"
    and fw2: "fitsAtom (isSpace, 0, None) w2" and fv: "fitsAtom (\<lambda>c. \<not> isLineTerminator c, 1, None) v"
    by (auto simp: testDayPattern_def list_all2_Cons1)
  from f1 have d1: "d1 = ''-''" by (auto simp: fitsAtom_exact)
  from f2 have d2: "d2 = ''-''" by (auto simp: fitsAtom_exact)
  from fs obtain sep where sp: "sp = [sep]" and sep: "sep = CHR ''-'' \<or> sep = CHR ''_''"
    by (auto simp: fitsAtom_exact)
  have "testDayParts s y m dd w1 sep w2 v"
    unfolding testDayParts_def
    using fy fm fd fw1 fw2 fv sep c [symmetric]
    by (simp add: fitsAtom_four fitsAtom_one_two fitsAtom_star fitsAtom_plus ps d1 d2 sp)
  with ps d1 d2 sp show ?R by blast
next
  assume ?R
  then obtain y m dd w1 sep w2 v where ps: "ps = [y, ''-'', m, ''-'', dd, w1, [sep], w2, v]"
    and d: "testDayParts s y m dd w1 sep w2 v" by blast
  from d have "list_all2 fitsAtom testDayPattern ps"
    unfolding testDayParts_def
    by (simp add: ps testDayPattern_def fitsAtom_exact fitsAtom_one_two fitsAtom_four
        fitsAtom_star fitsAtom_plus)
  moreover from d have "concat ps = s" by (simp add: ps testDayParts_def)
  ultimately show ?L by (simp add: matchAtoms_iff)
qed

lemma run_unique:
  "a @ x # r = a' @ x' # r' \<Longrightarrow> \<forall>c \<in> set a. P c \<Longrightarrow> \<forall>c \<in> set a'. P c \<Longrightarrow> \<not> P x \<Longrightarrow> \<not> P x' \<Longrightarrow>
     a = a' \<and> x = x' \<and> r = r'"
proof (induction a arbitrary: a')
  case Nil
  then show ?case by (cases a') auto
next
  case (Cons c a)
  then show ?case by (cases a') auto
qed

lemma space_not_digit: "isSpace c \<Longrightarrow> \<not> isDigit c"
  by (auto simp: isSpace_def isDigit_def)

lemma after_day:
  assumes "\<forall>c \<in> set w1. isSpace c" and "sep = CHR ''-'' \<or> sep = CHR ''_''"
  obtains x r where "w1 @ sep # t = x # r" and "\<not> isDigit x"
proof (cases w1)
  case Nil
  with assms(2) have "w1 @ sep # t = sep # t" "\<not> isDigit sep" by (auto simp: isDigit_def)
  then show ?thesis by (rule that)
next
  case (Cons c cs)
  with assms(1) have "w1 @ sep # t = c # cs @ sep # t" "\<not> isDigit c"
    by (auto simp: space_not_digit)
  then show ?thesis by (rule that)
qed

lemma testDayParts_unique:
  assumes "testDayParts s y m dd w1 sep w2 v" and "testDayParts s y' m' dd' w1' sep' w2' v'"
  shows "y = y' \<and> m = m' \<and> dd = dd' \<and> w1 = w1' \<and> sep = sep' \<and> w2 @ v = w2' @ v'"
proof -
  from assms have e: "y @ ''-'' @ m @ ''-'' @ dd @ w1 @ [sep] @ w2 @ v
      = y' @ ''-'' @ m' @ ''-'' @ dd' @ w1' @ [sep'] @ w2' @ v'"
    and "length y = length y'" by (simp_all add: testDayParts_def)
  then have y: "y = y'" and e1: "m @ CHR ''-'' # dd @ w1 @ sep # w2 @ v
      = m' @ CHR ''-'' # dd' @ w1' @ sep' # w2' @ v'" by simp_all
  have nd: "\<not> isDigit (CHR ''-'')" by (simp add: isDigit_def)
  from assms have "\<forall>c \<in> set m. isDigit c" "\<forall>c \<in> set m'. isDigit c" by (simp_all add: testDayParts_def)
  from run_unique [OF e1 this nd nd] have m: "m = m'"
    and e2: "dd @ w1 @ sep # w2 @ v = dd' @ w1' @ sep' # w2' @ v'" by simp_all
  from assms have sp: "\<forall>c \<in> set w1. isSpace c" "sep = CHR ''-'' \<or> sep = CHR ''_''"
    and sp': "\<forall>c \<in> set w1'. isSpace c" "sep' = CHR ''-'' \<or> sep' = CHR ''_''"
    and dg: "\<forall>c \<in> set dd. isDigit c" "\<forall>c \<in> set dd'. isDigit c"
    by (simp_all add: testDayParts_def)
  from sp obtain x r where x: "w1 @ sep # w2 @ v = x # r" "\<not> isDigit x" by (rule after_day)
  from sp' obtain x' r' where x': "w1' @ sep' # w2' @ v' = x' # r'" "\<not> isDigit x'" by (rule after_day)
  from e2 x(1) x'(1) have "dd @ x # r = dd' @ x' # r'" by simp
  from run_unique [OF this dg x(2) x'(2)] have dd: "dd = dd'" and "x # r = x' # r'" by simp_all
  with x(1) x'(1) have e3: "w1 @ sep # w2 @ v = w1' @ sep' # w2' @ v'" by simp
  from sp(2) sp'(2) have "\<not> isSpace sep" "\<not> isSpace sep'" by (auto simp: isSpace_def)
  from run_unique [OF e3 sp(1) sp'(1) this] have "w1 = w1'" "sep = sep'" "w2 @ v = w2' @ v'"
    by simp_all
  with y m dd show ?thesis by simp
qed


lemma first_way_greedy:
  assumes first: "matchAtoms testDayPattern s = [y, ''-'', m, ''-'', dd, w1, [sep], w2, v] # others"
  shows "isSpace (hd v) \<longrightarrow> length v = 1"
proof
  assume sp: "isSpace (hd v)"
  from first have "[y, ''-'', m, ''-'', dd, w1, [sep], w2, v] \<in> set (matchAtoms testDayPattern s)"
    by simp
  then have d: "testDayParts s y m dd w1 sep w2 v" by (simp add: pattern_ways)
  show "length v = 1"
  proof (rule ccontr)
    assume n: "length v \<noteq> 1"
    from d have "v \<noteq> []" by (simp add: testDayParts_def)
    with n obtain c v2 where v: "v = c # v2" and v2: "v2 \<noteq> []" by (cases v) auto
    from d sp v v2 have "testDayParts s y m dd w1 sep (w2 @ [c]) v2"
      by (simp add: testDayParts_def)
    then have "[y, ''-'', m, ''-'', dd, w1, [sep], w2 @ [c], v2] \<in> set (matchAtoms testDayPattern s)"
      by (simp add: pattern_ways)
    from matchAtoms_first [OF first this] show False by simp
  qed
qed

lemma first_way_is:
  assumes d: "testDayParts s y m dd w1 sep w2 v" and g: "isSpace (hd v) \<longrightarrow> length v = 1"
  shows "\<exists>others. matchAtoms testDayPattern s = [y, ''-'', m, ''-'', dd, w1, [sep], w2, v] # others"
proof -
  let ?D = "[y, ''-'', m, ''-'', dd, w1, [sep], w2, v]"
  from d have D: "?D \<in> set (matchAtoms testDayPattern s)" by (auto simp: pattern_ways)
  then obtain H others where first: "matchAtoms testDayPattern s = H # others"
    by (cases "matchAtoms testDayPattern s") auto
  then have "H \<in> set (matchAtoms testDayPattern s)" by simp
  then obtain y' m' dd' w1' sep' w2' v' where H: "H = [y', ''-'', m', ''-'', dd', w1', [sep'], w2', v']"
    and d': "testDayParts s y' m' dd' w1' sep' w2' v'" by (auto simp: pattern_ways)
  from testDayParts_unique [OF d d'] have eq: "y = y'" "m = m'" "dd = dd'" "w1 = w1'" "sep = sep'"
    and e: "w2 @ v = w2' @ v'" by simp_all
  from matchAtoms_first [OF first D] have le: "length w2 \<le> length w2'"
    by (auto simp: H eq)
  have "length w2 = length w2'"
  proof (rule ccontr)
    assume "length w2 \<noteq> length w2'"
    with le have lt: "length w2 < length w2'" by simp
    from e obtain us where "w2 = w2' @ us \<and> us @ v = v' \<or> w2 @ us = w2' \<and> v = us @ v'"
      by (auto simp: append_eq_append_conv2)
    with lt have us: "w2 @ us = w2'" "v = us @ v'" by auto
    with lt obtain u us' where u: "us = u # us'" by (cases us) auto
    from d' have "\<forall>c \<in> set w2'. isSpace c" by (simp add: testDayParts_def)
    with us(1) u have "isSpace u" by auto
    with us(2) u have "isSpace (hd v)" by simp
    with g have "length v = 1" by simp
    with us(2) u have "v' = []" by simp
    with d' show False by (simp add: testDayParts_def)
  qed
  with e have "w2 = w2'" "v = v'" by simp_all
  with first H eq show ?thesis by simp
qed

lemma matchTestDayFolder_testDayParts:
  "matchTestDayFolder s = Some (d, v) \<longleftrightarrow>
     (\<exists>y m dd w1 sep w2. testDayParts s y m dd w1 sep w2 v \<and> d = y @ ''-'' @ m @ ''-'' @ dd \<and>
        (isSpace (hd v) \<longrightarrow> length v = 1))"
  (is "?L \<longleftrightarrow> ?R")
proof
  assume ?L
  then obtain H others where first: "matchAtoms testDayPattern s = H # others"
    and dv: "d = concat (take 5 H)" "v = H ! 8"
    by (auto simp: matchTestDayFolder_def split: list.splits)
  then have "H \<in> set (matchAtoms testDayPattern s)" by simp
  then obtain y m dd w1 sep w2 v' where H: "H = [y, ''-'', m, ''-'', dd, w1, [sep], w2, v']"
    and d': "testDayParts s y m dd w1 sep w2 v'" by (auto simp: pattern_ways)
  from dv H have "v' = v" "d = y @ ''-'' @ m @ ''-'' @ dd" by simp_all
  moreover from first H have "isSpace (hd v') \<longrightarrow> length v' = 1"
    using first_way_greedy by simp
  ultimately show ?R using d' by blast
next
  assume ?R
  then obtain y m dd w1 sep w2 where d: "testDayParts s y m dd w1 sep w2 v"
    and dd: "d = y @ ''-'' @ m @ ''-'' @ dd" and g: "isSpace (hd v) \<longrightarrow> length v = 1" by blast
  from first_way_is [OF d g] obtain others where
    "matchAtoms testDayPattern s = [y, ''-'', m, ''-'', dd, w1, [sep], w2, v] # others" ..
  then show ?L by (simp add: matchTestDayFolder_def dd)
qed

text \<open>
  Claim C6, as the code has it. The matcher returns a date and a venue for \<open>s\<close> exactly
  when \<open>s\<close> is: four digits, \<open>-\<close>, one or two digits, \<open>-\<close>, one or two digits (these
  make the date, and nothing may stand before them), optional white space, one separator
  \<open>-\<close> or \<open>_\<close>, optional white space, and then the venue, which is the whole remainder:
  not empty, without a line terminator, and starting with white space only when it is a
  single white-space character. For every other \<open>s\<close> the matcher returns none.
\<close>

theorem matchTestDayFolder_iff:
  "matchTestDayFolder s = Some (d, v) \<longleftrightarrow>
     (\<exists>y m dd w1 sep w2.
        s = y @ ''-'' @ m @ ''-'' @ dd @ w1 @ [sep] @ w2 @ v \<and>
        d = y @ ''-'' @ m @ ''-'' @ dd \<and>
        length y = 4 \<and> (\<forall>c \<in> set y. isDigit c) \<and>
        (length m = 1 \<or> length m = 2) \<and> (\<forall>c \<in> set m. isDigit c) \<and>
        (length dd = 1 \<or> length dd = 2) \<and> (\<forall>c \<in> set dd. isDigit c) \<and>
        (\<forall>c \<in> set w1. isSpace c) \<and> (sep = CHR ''-'' \<or> sep = CHR ''_'') \<and>
        (\<forall>c \<in> set w2. isSpace c) \<and>
        v \<noteq> [] \<and> (\<forall>c \<in> set v. \<not> isLineTerminator c) \<and>
        (isSpace (hd v) \<longrightarrow> length v = 1))"
  unfolding matchTestDayFolder_testDayParts testDayParts_def by blast

theorem matchTestDayFolder_iff_witness:
  "matchTestDayFolder ''2025-4-11 - Villa'' = Some (''2025-4-11'', ''Villa'') \<and>
   matchTestDayFolder ''2025-12-25 - Test Track'' = Some (''2025-12-25'', ''Test Track'') \<and>
   matchTestDayFolder ''Villa'' = None \<and>
   matchTestDayFolder ''2025-4-11Villa'' = None"
proof -
  have "\<exists>y m dd w1 sep w2.
        ''2025-4-11 - Villa'' = y @ ''-'' @ m @ ''-'' @ dd @ w1 @ [sep] @ w2 @ ''Villa'' \<and>
        ''2025-4-11'' = y @ ''-'' @ m @ ''-'' @ dd \<and>
        length y = 4 \<and> (\<forall>c \<in> set y. isDigit c) \<and>
        (length m = 1 \<or> length m = 2) \<and> (\<forall>c \<in> set m. isDigit c) \<and>
        (length dd = 1 \<or> length dd = 2) \<and> (\<forall>c \<in> set dd. isDigit c) \<and>
        (\<forall>c \<in> set w1. isSpace c) \<and> (sep = CHR ''-'' \<or> sep = CHR ''_'') \<and>
        (\<forall>c \<in> set w2. isSpace c) \<and>
        ''Villa'' \<noteq> [] \<and> (\<forall>c \<in> set ''Villa''. \<not> isLineTerminator c) \<and>
        (isSpace (hd ''Villa'') \<longrightarrow> length ''Villa'' = 1)"
    apply (rule exI [of _ "''2025''"], rule exI [of _ "''4''"], rule exI [of _ "''11''"])
    apply (rule exI [of _ "'' ''"], rule exI [of _ "CHR ''-''"], rule exI [of _ "'' ''"])
    apply (simp add: isDigit_def isSpace_def isLineTerminator_def)
    done
  then have "matchTestDayFolder ''2025-4-11 - Villa'' = Some (''2025-4-11'', ''Villa'')"
    using matchTestDayFolder_iff [of "''2025-4-11 - Villa''" "''2025-4-11''" "''Villa''"] by simp
  moreover have "matchTestDayFolder ''2025-12-25 - Test Track'' = Some (''2025-12-25'', ''Test Track'')"
    "matchTestDayFolder ''Villa'' = None" "matchTestDayFolder ''2025-4-11Villa'' = None"
    by (simp_all add: matchTestDayFolder_def testDayPattern_def candidates_def
        isDigit_def isSpace_def isLineTerminator_def)
  ultimately show ?thesis by simp
qed

text \<open>
  Claim C6 as stated fails in two ways. With a blank in front the specification's pattern
  matches and the code returns none; and a blank after the venue is part of the venue that
  the code returns, which therefore is not a trimmed venue.
\<close>

theorem matchTestDayFolder_counterexample:
  "spec_matchTestDayFolder '' 2025-4-11 - Villa'' ''2025-4-11'' ''Villa'' \<and>
   matchTestDayFolder '' 2025-4-11 - Villa'' = None \<and>
   spec_matchTestDayFolder ''2025-4-11 - Villa '' ''2025-4-11'' ''Villa'' \<and>
   \<not> spec_matchTestDayFolder ''2025-4-11 - Villa '' ''2025-4-11'' ''Villa '' \<and>
   matchTestDayFolder ''2025-4-11 - Villa '' = Some (''2025-4-11'', ''Villa '')"
proof -
  have "spec_matchTestDayFolder '' 2025-4-11 - Villa'' ''2025-4-11'' ''Villa''"
    unfolding spec_matchTestDayFolder_def
    apply (rule exI [of _ "'' ''"], rule exI [of _ "''2025''"], rule exI [of _ "''4''"])
    apply (rule exI [of _ "''11''"], rule exI [of _ "'' ''"], rule exI [of _ "''-''"])
    apply (rule exI [of _ "'' ''"], rule exI [of _ "[]"])
    apply (simp add: isDigit_def isSpace_def)
    done
  moreover have "spec_matchTestDayFolder ''2025-4-11 - Villa '' ''2025-4-11'' ''Villa''"
    unfolding spec_matchTestDayFolder_def
    apply (rule exI [of _ "[]"], rule exI [of _ "''2025''"], rule exI [of _ "''4''"])
    apply (rule exI [of _ "''11''"], rule exI [of _ "'' ''"], rule exI [of _ "''-''"])
    apply (rule exI [of _ "'' ''"], rule exI [of _ "'' ''"])
    apply (simp add: isDigit_def isSpace_def)
    done
  moreover have "\<not> spec_matchTestDayFolder ''2025-4-11 - Villa '' ''2025-4-11'' ''Villa ''"
    by (simp add: spec_matchTestDayFolder_def isSpace_def)
  moreover have "matchTestDayFolder '' 2025-4-11 - Villa'' = None"
    "matchTestDayFolder ''2025-4-11 - Villa '' = Some (''2025-4-11'', ''Villa '')"
    by (simp_all add: matchTestDayFolder_def testDayPattern_def candidates_def
        isDigit_def isSpace_def isLineTerminator_def)
  ultimately show ?thesis by simp
qed

section \<open>Properties of the scanner\<close>

lemma scanFile_fst: "fst (scanFile (dm, ds) f) = groupStep dm f"
  by (simp add: scanFile_def groupStep_def testDayFolderOf_def Let_def)

lemma foldl_scanFile_fst: "fst (foldl scanFile st files) = foldl groupStep (fst st) files"
proof (induction files arbitrary: st)
  case Nil
  then show ?case by simp
next
  case (Cons f files)
  have "fst (scanFile st f) = groupStep (fst st) f"
    using scanFile_fst [of "fst st" "snd st" f] by simp
  with Cons show ?case by simp
qed

lemma pushFile_keys: "fst ` set (pushFile k f m) = insert k (fst ` set m)"
proof (induction m)
  case Nil
  then show ?case by simp
next
  case (Cons e m)
  obtain k' fs where e: "e = (k', fs)" by (cases e)
  from Cons show ?case by (cases "k' = k") (simp_all add: e insert_commute)
qed

lemma pushFile_distinct: "distinct (map fst m) \<Longrightarrow> distinct (map fst (pushFile k f m))"
proof (induction m)
  case Nil
  then show ?case by simp
next
  case (Cons e m)
  obtain k' fs where e: "e = (k', fs)" by (cases e)
  from Cons show ?case
    using pushFile_keys [of k f m] by (auto simp: e)
qed

lemma pushFile_map_of:
  "map_of (pushFile k f m) = (map_of m)(k \<mapsto> (case map_of m k of None \<Rightarrow> [f] | Some fs \<Rightarrow> fs @ [f]))"
  by (induction m) (auto simp: fun_eq_iff)

lemma groups_distinct: "distinct (map fst (foldl groupStep [] files))"
proof (induction files rule: rev_induct)
  case Nil
  then show ?case by simp
next
  case (snoc f files)
  then show ?case by (simp add: groupStep_def pushFile_distinct)
qed

lemma groups_map_of:
  "map_of (foldl groupStep [] files) g =
     (if g \<noteq> [] \<and> filter (\<lambda>f. testDayFolderOf f = g) files \<noteq> []
      then Some (filter (\<lambda>f. testDayFolderOf f = g) files) else None)"
proof (induction files rule: rev_induct)
  case Nil
  then show ?case by simp
next
  case (snoc f files)
  then show ?case
    by (auto simp: groupStep_def pushFile_map_of)
qed

lemma groups_iff:
  "(g, fs) \<in> set (foldl groupStep [] files) \<longleftrightarrow>
     g \<noteq> [] \<and> fs \<noteq> [] \<and> fs = filter (\<lambda>f. testDayFolderOf f = g) files"
proof -
  have "(g, fs) \<in> set (foldl groupStep [] files) \<longleftrightarrow> map_of (foldl groupStep [] files) g = Some fs"
    using groups_distinct [of files] by simp
  then show ?thesis by (auto simp: groups_map_of)
qed

lemma collectFolder_eq:
  "collectFolder fs = (map toXRKFile (filter isXrk fs), \<exists>f \<in> set fs. \<not> isXrk f \<and> isTestDayJson f)"
proof (induction fs rule: rev_induct)
  case Nil
  then show ?case by (simp add: collectFolder_def)
next
  case (snoc f fs)
  then show ?case
    by (auto simp: collectFolder_def isXrk_def isTestDayJson_def toXRKFile_def)
qed

lemma find_first_iff:
  "find P xs = Some x \<longleftrightarrow> (\<exists>before after. xs = before @ x # after \<and> (\<forall>p \<in> set before. \<not> P p) \<and> P x)"
proof (induction xs)
  case Nil
  then show ?case by simp
next
  case (Cons a xs)
  show ?case
  proof (cases "P a")
    case True
    have "(\<exists>before after. a # xs = before @ x # after \<and> (\<forall>p \<in> set before. \<not> P p) \<and> P x) \<longleftrightarrow> a = x"
    proof
      assume "\<exists>before after. a # xs = before @ x # after \<and> (\<forall>p \<in> set before. \<not> P p) \<and> P x"
      then obtain before after where e: "a # xs = before @ x # after" and n: "\<forall>p \<in> set before. \<not> P p"
        by blast
      with True show "a = x" by (cases before) auto
    next
      assume "a = x"
      with True have "a # xs = [] @ x # xs \<and> (\<forall>p \<in> set []. \<not> P p) \<and> P x" by simp
      then show "\<exists>before after. a # xs = before @ x # after \<and> (\<forall>p \<in> set before. \<not> P p) \<and> P x"
        by blast
    qed
    with True show ?thesis by simp
  next
    case False
    have "(\<exists>before after. a # xs = before @ x # after \<and> (\<forall>p \<in> set before. \<not> P p) \<and> P x) \<longleftrightarrow>
          (\<exists>before after. xs = before @ x # after \<and> (\<forall>p \<in> set before. \<not> P p) \<and> P x)"
    proof
      assume "\<exists>before after. a # xs = before @ x # after \<and> (\<forall>p \<in> set before. \<not> P p) \<and> P x"
      then obtain before after where e: "a # xs = before @ x # after" and n: "\<forall>p \<in> set before. \<not> P p"
        and x: "P x" by blast
      with False obtain b' where "before = a # b'" by (cases before) auto
      with e n x have "xs = b' @ x # after \<and> (\<forall>p \<in> set b'. \<not> P p) \<and> P x" by simp
      then show "\<exists>before after. xs = before @ x # after \<and> (\<forall>p \<in> set before. \<not> P p) \<and> P x" by blast
    next
      assume "\<exists>before after. xs = before @ x # after \<and> (\<forall>p \<in> set before. \<not> P p) \<and> P x"
      then obtain before after where "xs = before @ x # after" "\<forall>p \<in> set before. \<not> P p" "P x" by blast
      with False have "a # xs = (a # before) @ x # after \<and> (\<forall>p \<in> set (a # before). \<not> P p) \<and> P x"
        by simp
      then show "\<exists>before after. a # xs = before @ x # after \<and> (\<forall>p \<in> set before. \<not> P p) \<and> P x"
        by blast
    qed
    with False Cons show ?thesis by simp
  qed
qed

lemma match_empty: "matchTestDayFolder [] = None"
  by (simp add: matchTestDayFolder_def testDayPattern_def candidates_def)

lemma findTestDayFolder_iff:
  "findTestDayFolder parts = g \<and> g \<noteq> [] \<longleftrightarrow>
     (\<exists>before after. butlast parts = before @ g # after \<and>
        (\<forall>p \<in> set before. matchTestDayFolder p = None) \<and> matchTestDayFolder g \<noteq> None)"
proof -
  have "findTestDayFolder parts = g \<and> g \<noteq> [] \<longleftrightarrow>
        find (\<lambda>part. matchTestDayFolder part \<noteq> None) (butlast parts) = Some g"
    using match_empty
    by (auto simp: findTestDayFolder_def split: option.splits dest: find_Some_iff [THEN iffD1])
  then show ?thesis
    using find_first_iff [of "\<lambda>part. matchTestDayFolder part \<noteq> None" "butlast parts" g]
    by (simp del: not_None_eq)
qed

lemma short_butlast: "\<not> 2 \<le> length xs \<Longrightarrow> butlast xs = []"
  by (cases xs) (auto simp: Suc_le_eq)

lemma testDayFolderOf_iff:
  "testDayFolderOf f = g \<and> g \<noteq> [] \<longleftrightarrow>
     (\<exists>before after. butlast (split (webkitRelativePath f) ''/'') = before @ g # after \<and>
        (\<forall>p \<in> set before. matchTestDayFolder p = None) \<and> matchTestDayFolder g \<noteq> None)"
proof (cases "2 \<le> length (split (webkitRelativePath f) ''/'')")
  case True
  then show ?thesis
    using findTestDayFolder_iff [of "split (webkitRelativePath f) ''/''" g]
    by (simp add: testDayFolderOf_def)
next
  case False
  then have "butlast (split (webkitRelativePath f) ''/'') = []"
    by (rule short_butlast)
  with False show ?thesis by (auto simp: testDayFolderOf_def)
qed

lemma testDayFolderOf_matches: "testDayFolderOf f \<noteq> [] \<Longrightarrow> matchTestDayFolder (testDayFolderOf f) \<noteq> None"
  using testDayFolderOf_iff [of f "testDayFolderOf f"] by blast

lemma processFolder_group:
  assumes "(g, fs) \<in> set (foldl groupStep [] files)"
  shows "processFolder (g, fs) =
     (if \<exists>f \<in> set fs. isXrk f \<or> isTestDayJson f
      then [\<lparr> TestDayFolder.name = g, path = g, xrkFiles = map toXRKFile (filter isXrk fs) \<rparr>]
      else [])"
proof -
  from assms have g: "g \<noteq> []" and fs: "fs \<noteq> []" "fs = filter (\<lambda>f. testDayFolderOf f = g) files"
    by (auto simp: groups_iff)
  from fs(1) obtain f where f: "f \<in> set fs" by (cases fs) auto
  have "set fs \<subseteq> {f. testDayFolderOf f = g}" by (subst fs(2)) auto
  with f have "testDayFolderOf f = g" by auto
  with g have "matchTestDayFolder g \<noteq> None" using testDayFolderOf_matches [of f] by simp
  then show ?thesis
    by (auto simp: processFolder_def collectFolder_eq filter_empty_conv)
qed

lemma scan_folders:
  "fst (scanForTestDayFolders files) = concat (map processFolder (foldl groupStep [] files))"
  using foldl_scanFile_fst [of "([], [])" files]
  by (cases "foldl scanFile ([], []) files") (simp add: scanForTestDayFolders_def)

lemma scan_folder_iff:
  "td \<in> set (fst (scanForTestDayFolders files)) \<longleftrightarrow>
     TestDayFolder.name td \<noteq> [] \<and>
     (\<exists>f \<in> set files. testDayFolderOf f = TestDayFolder.name td \<and> (isXrk f \<or> isTestDayJson f)) \<and>
     td = \<lparr> TestDayFolder.name = TestDayFolder.name td, path = TestDayFolder.name td,
            xrkFiles = map toXRKFile (filter (\<lambda>f. testDayFolderOf f = TestDayFolder.name td \<and> isXrk f) files) \<rparr>"
  (is "?L \<longleftrightarrow> ?R")
proof
  assume ?L
  then obtain g fs where m: "(g, fs) \<in> set (foldl groupStep [] files)" and td: "td \<in> set (processFolder (g, fs))"
    by (auto simp: scan_folders)
  from m have g: "g \<noteq> []" and fs: "fs = filter (\<lambda>f. testDayFolderOf f = g) files"
    by (auto simp: groups_iff)
  from td processFolder_group [OF m] have ex: "\<exists>f \<in> set fs. isXrk f \<or> isTestDayJson f"
    and td': "td = \<lparr> TestDayFolder.name = g, path = g, xrkFiles = map toXRKFile (filter isXrk fs) \<rparr>"
    by (auto split: if_splits)
  from td' have n: "TestDayFolder.name td = g" by simp
  from ex fs have "\<exists>f \<in> set files. testDayFolderOf f = g \<and> (isXrk f \<or> isTestDayJson f)" by auto
  moreover from fs have "filter isXrk fs = filter (\<lambda>f. testDayFolderOf f = g \<and> isXrk f) files"
    by (simp add: conj_commute)
  ultimately show ?R using g td' n by simp
next
  assume r: ?R
  let ?g = "TestDayFolder.name td"
  let ?fs = "filter (\<lambda>f. testDayFolderOf f = ?g) files"
  from r obtain f where f: "f \<in> set files" "testDayFolderOf f = ?g" "isXrk f \<or> isTestDayJson f" by blast
  then have "f \<in> set ?fs" by simp
  then have ne: "?fs \<noteq> []" by (auto simp: filter_empty_conv)
  with r have m: "(?g, ?fs) \<in> set (foldl groupStep [] files)" by (simp add: groups_iff)
  from f have "\<exists>f \<in> set ?fs. isXrk f \<or> isTestDayJson f" by auto
  with processFolder_group [OF m]
  have "processFolder (?g, ?fs) = [\<lparr> TestDayFolder.name = ?g, path = ?g, xrkFiles = map toXRKFile (filter isXrk ?fs) \<rparr>]"
    by simp
  moreover have "filter isXrk ?fs = filter (\<lambda>f. testDayFolderOf f = ?g \<and> isXrk f) files"
    by (simp add: conj_commute)
  ultimately have "td \<in> set (processFolder (?g, ?fs))" using r by simp
  with m show ?L by (force simp: scan_folders)
qed

text \<open>
  Claim C5, as the code has it. A test-day folder is emitted for a segment \<open>g\<close> exactly
  when, for at least one file of the list, \<open>g\<close> is the first of the folder segments of
  the file's path that matches the pattern, and the file's name ends in \<open>.xrk\<close> or is
  \<open>testday.json\<close> (both without regard to case). A matching segment that lies below
  another matching segment owns no file. The emitted folder lists the telemetry files
  grouped under it; in particular a folder with the marker file and no telemetry file
  is emitted with an empty list. (\<open>testDayFolderOf f = g\<close> with \<open>g\<close> not empty says that
  \<open>g\<close> is that first matching segment of \<open>f\<close>.)
\<close>

theorem scan_emits_iff:
  "(g \<in> TestDayFolder.name ` set (fst (scanForTestDayFolders files)) \<longleftrightarrow>
      (\<exists>f \<in> set files. \<exists>before after.
          butlast (split (webkitRelativePath f) ''/'') = before @ g # after \<and>
          (\<forall>p \<in> set before. matchTestDayFolder p = None) \<and> matchTestDayFolder g \<noteq> None \<and>
          (endsWith (toLowerCase (File.name f)) ''.xrk'' \<or>
           toLowerCase (File.name f) = ''testday.json''))) \<and>
   (\<forall>td \<in> set (fst (scanForTestDayFolders files)).
      TestDayFolder.path td = TestDayFolder.name td \<and>
      xrkFiles td = map toXRKFile
        (filter (\<lambda>f. testDayFolderOf f = TestDayFolder.name td \<and> isXrk f) files)) \<and>
   ((\<exists>f \<in> set files. testDayFolderOf f = g \<and> g \<noteq> [] \<and> isTestDayJson f) \<and>
    (\<forall>f \<in> set files. testDayFolderOf f = g \<longrightarrow> \<not> isXrk f) \<longrightarrow>
      \<lparr> TestDayFolder.name = g, path = g, xrkFiles = [] \<rparr> \<in> set (fst (scanForTestDayFolders files)))"
proof (intro conjI ballI impI)
  have "g \<in> TestDayFolder.name ` set (fst (scanForTestDayFolders files)) \<longleftrightarrow>
        (\<exists>f \<in> set files. (testDayFolderOf f = g \<and> g \<noteq> []) \<and> (isXrk f \<or> isTestDayJson f))"
  proof
    assume "g \<in> TestDayFolder.name ` set (fst (scanForTestDayFolders files))"
    then obtain td where "td \<in> set (fst (scanForTestDayFolders files))" "TestDayFolder.name td = g"
      by auto
    then show "\<exists>f \<in> set files. (testDayFolderOf f = g \<and> g \<noteq> []) \<and> (isXrk f \<or> isTestDayJson f)"
      by (auto simp: scan_folder_iff)
  next
    assume "\<exists>f \<in> set files. (testDayFolderOf f = g \<and> g \<noteq> []) \<and> (isXrk f \<or> isTestDayJson f)"
    then have "\<lparr> TestDayFolder.name = g, path = g,
        xrkFiles = map toXRKFile (filter (\<lambda>f. testDayFolderOf f = g \<and> isXrk f) files) \<rparr>
        \<in> set (fst (scanForTestDayFolders files))"
      by (subst scan_folder_iff) auto
    then show "g \<in> TestDayFolder.name ` set (fst (scanForTestDayFolders files))"
      by force
  qed
  then show "g \<in> TestDayFolder.name ` set (fst (scanForTestDayFolders files)) \<longleftrightarrow>
      (\<exists>f \<in> set files. \<exists>before after.
          butlast (split (webkitRelativePath f) ''/'') = before @ g # after \<and>
          (\<forall>p \<in> set before. matchTestDayFolder p = None) \<and> matchTestDayFolder g \<noteq> None \<and>
          (endsWith (toLowerCase (File.name f)) ''.xrk'' \<or>
           toLowerCase (File.name f) = ''testday.json''))"
    by (simp add: testDayFolderOf_iff isXrk_def isTestDayJson_def del: not_None_eq) blast
next
  fix td assume "td \<in> set (fst (scanForTestDayFolders files))"
  then have "td = \<lparr> TestDayFolder.name = TestDayFolder.name td, path = TestDayFolder.name td,
      xrkFiles = map toXRKFile (filter (\<lambda>f. testDayFolderOf f = TestDayFolder.name td \<and> isXrk f) files) \<rparr>"
    by (simp add: scan_folder_iff)
  then show "TestDayFolder.path td = TestDayFolder.name td"
    and "xrkFiles td = map toXRKFile
        (filter (\<lambda>f. testDayFolderOf f = TestDayFolder.name td \<and> isXrk f) files)"
    by (metis TestDayFolder.select_convs(2), metis TestDayFolder.select_convs(3))
next
  assume a: "(\<exists>f \<in> set files. testDayFolderOf f = g \<and> g \<noteq> [] \<and> isTestDayJson f) \<and>
    (\<forall>f \<in> set files. testDayFolderOf f = g \<longrightarrow> \<not> isXrk f)"
  then have "filter (\<lambda>f. testDayFolderOf f = g \<and> isXrk f) files = []"
    by (auto simp: filter_empty_conv)
  with a show "\<lparr> TestDayFolder.name = g, path = g, xrkFiles = [] \<rparr> \<in> set (fst (scanForTestDayFolders files))"
    by (subst scan_folder_iff) auto
qed

theorem scan_emits_iff_witness:
  "''2025-5-1_Mosport'' \<in> TestDayFolder.name ` set (fst (scanForTestDayFolders mosportFiles)) \<and>
   \<lparr> TestDayFolder.name = ''2025-5-1_Mosport'', path = ''2025-5-1_Mosport'', xrkFiles = [] \<rparr>
     \<in> set (fst (scanForTestDayFolders mosportFiles))"
proof -
  let ?f = "fileNamed ''root/2025-5-1_Mosport/testday.json'' ''testday.json''"
  have parts: "butlast (split (webkitRelativePath ?f) ''/'') = [''root''] @ ''2025-5-1_Mosport'' # []"
    by (simp add: split_def splitFrom.simps fileNamed_def)
  have m: "\<forall>p \<in> set [''root'']. matchTestDayFolder p = None"
    "matchTestDayFolder ''2025-5-1_Mosport'' \<noteq> None"
    by (simp_all add: matchTestDayFolder_def testDayPattern_def candidates_def isDigit_def
        isSpace_def isLineTerminator_def)
  have n: "toLowerCase (File.name ?f) = ''testday.json''"
    by (simp add: toLowerCase_def fileNamed_def)
  from parts m n have "\<exists>f \<in> set mosportFiles. \<exists>before after.
          butlast (split (webkitRelativePath f) ''/'') = before @ ''2025-5-1_Mosport'' # after \<and>
          (\<forall>p \<in> set before. matchTestDayFolder p = None) \<and>
          matchTestDayFolder ''2025-5-1_Mosport'' \<noteq> None \<and>
          (endsWith (toLowerCase (File.name f)) ''.xrk'' \<or>
           toLowerCase (File.name f) = ''testday.json'')"
    unfolding mosportFiles_def
    by (intro bexI [of _ ?f] exI [of _ "[''root'']"] exI [of _ "[]"]) simp_all
  moreover have "(\<exists>f \<in> set mosportFiles. testDayFolderOf f = ''2025-5-1_Mosport'' \<and>
        ''2025-5-1_Mosport'' \<noteq> [] \<and> isTestDayJson f) \<and>
    (\<forall>f \<in> set mosportFiles. testDayFolderOf f = ''2025-5-1_Mosport'' \<longrightarrow> \<not> isXrk f)"
    by (simp add: mosportFiles_def toLowerCase_def endsWith_def split_def splitFrom.simps
        matchTestDayFolder_def testDayPattern_def candidates_def isDigit_def isSpace_def
        isLineTerminator_def findTestDayFolder_def Let_def testDayFolderOf_def isXrk_def
        isTestDayJson_def fileNamed_def)
  ultimately show ?thesis
    using scan_emits_iff [of "''2025-5-1_Mosport''" mosportFiles] by blast
qed

text \<open>
  Claim C5 as stated fails: the segment \<open>2025-4-12 - Mosport\<close> matches the pattern and
  has a \<open>.xrk\<close> file below it, but it lies inside the matching segment
  \<open>2025-4-11 - Villa\<close>, which takes the file; no folder is emitted for the inner
  segment.
\<close>

theorem scan_emits_counterexample:
  "matchTestDayFolder ''2025-4-12 - Mosport'' \<noteq> None \<and>
   ''2025-4-12 - Mosport'' \<in> set (butlast (split (webkitRelativePath nestedRun) ''/'')) \<and>
   endsWith (toLowerCase (File.name nestedRun)) ''.xrk'' \<and>
   map TestDayFolder.name (fst (scanForTestDayFolders [nestedRun])) = [''2025-4-11 - Villa'']"
  by (simp add: nestedRun_def toLowerCase_def endsWith_def split_def splitFrom.simps
      matchTestDayFolder_def testDayPattern_def candidates_def isDigit_def isSpace_def
      isLineTerminator_def findTestDayFolder_def scanFile_def collectFolder_def processFolder_def
      scanForTestDayFolders_def Let_def fileNamed_def)

section \<open>Properties of the merge\<close>

lemma mergeNew_twice: "mergeNew ident (mergeNew ident prev b) b = mergeNew ident prev b"
proof -
  have "filter (\<lambda>d. ident d \<notin> set (map ident (prev @ filter (\<lambda>d. ident d \<notin> set (map ident prev)) b))) b = []"
    by (auto simp: filter_empty_conv)
  then show ?thesis by (simp add: mergeNew_def Let_def)
qed

lemma mergeNew_distinct:
  assumes "distinct (map ident prev)" and "distinct (map ident b)"
  shows "distinct (map ident (mergeNew ident prev b))"
proof -
  have "ident x \<noteq> ident y" if "x \<in> set prev" and "ident y \<notin> ident ` set prev" for x y
    using that by (metis imageI)
  with assms show ?thesis
    by (auto simp: mergeNew_def Let_def distinct_map_filter)
qed

lemma mergeNew_prefix: "take (length prev) (mergeNew ident prev b) = prev"
  by (simp add: mergeNew_def Let_def)

lemma mergeNew_added:
  "x \<in> set (drop (length prev) (mergeNew ident prev b)) \<Longrightarrow>
     x \<in> set b \<and> ident x \<notin> ident ` set prev"
  by (simp add: mergeNew_def Let_def)

text \<open>
  Claim C3. The merge is idempotent: merging the same import a second time leaves the
  dataset as the first merge produced it.
\<close>

theorem merge_idempotent:
  "handleDataImported (handleDataImported st b) b = handleDataImported st b"
  by (simp add: handleDataImported_def mergeNew_twice)

text \<open>
  Claim C7. The merge passes every existing record through unchanged: in each of the four
  collections the existing list is the front part of the merged list, and every record
  behind it is a record of the import whose key no existing record has, so that on equal
  keys the existing record stays and the imported record is dropped. The result is a new
  value; the existing dataset is only read.
\<close>

theorem merge_keeps_existing:
  "take (length (days st)) (days (handleDataImported st b)) = days st \<and>
   (\<forall>d \<in> set (drop (length (days st)) (days (handleDataImported st b))).
      d \<in> set (testDays b) \<and> TestDay.id d \<notin> TestDay.id ` set (days st)) \<and>
   take (length (Dataset.runs st)) (Dataset.runs (handleDataImported st b)) = Dataset.runs st \<and>
   (\<forall>r \<in> set (drop (length (Dataset.runs st)) (Dataset.runs (handleDataImported st b))).
      r \<in> set (ImportedData.runs b) \<and> Run.id r \<notin> Run.id ` set (Dataset.runs st)) \<and>
   take (length (Dataset.setups st)) (Dataset.setups (handleDataImported st b)) = Dataset.setups st \<and>
   (\<forall>s \<in> set (drop (length (Dataset.setups st)) (Dataset.setups (handleDataImported st b))).
      s \<in> set (ImportedData.setups b) \<and> SetupSnapshot.id s \<notin> SetupSnapshot.id ` set (Dataset.setups st)) \<and>
   take (length (tires st)) (tires (handleDataImported st b)) = tires st \<and>
   (\<forall>t \<in> set (drop (length (tires st)) (tires (handleDataImported st b))).
      t \<in> set (tireSets b) \<and> TireSet.id t \<notin> TireSet.id ` set (tires st))"
  using mergeNew_added [of _ "days st" TestDay.id "testDays b"]
    mergeNew_added [of _ "Dataset.runs st" Run.id "ImportedData.runs b"]
    mergeNew_added [of _ "Dataset.setups st" SetupSnapshot.id "ImportedData.setups b"]
    mergeNew_added [of _ "tires st" TireSet.id "tireSets b"]
  by (simp add: handleDataImported_def mergeNew_prefix)

theorem merge_keeps_existing_witness:
  "Dataset.runs (handleDataImported (emptyDataset \<lparr> Dataset.runs := [exampleRun ''R1'' 1] \<rparr>)
      (runsOnly [exampleRun ''R1'' 7, exampleRun ''R2'' 2]))
     = [exampleRun ''R1'' 1, exampleRun ''R2'' 2] \<and>
   take (length [exampleRun ''R1'' 1])
     (Dataset.runs (handleDataImported (emptyDataset \<lparr> Dataset.runs := [exampleRun ''R1'' 1] \<rparr>)
        (runsOnly [exampleRun ''R1'' 7, exampleRun ''R2'' 2])))
     = [exampleRun ''R1'' 1]"
  using merge_keeps_existing [of "emptyDataset \<lparr> Dataset.runs := [exampleRun ''R1'' 1] \<rparr>"
      "runsOnly [exampleRun ''R1'' 7, exampleRun ''R2'' 2]"]
  by (simp add: handleDataImported_def mergeNew_def emptyDataset_def runsOnly_def exampleRun_def)

text \<open>
  Claim C8, as the code has it. The merge keeps keys unique when the import itself has no
  two records with the same key: if the keys of the existing records are pairwise distinct
  and the keys of the imported records are pairwise distinct, in each collection, then so
  are the keys of the merged records. An imported record is compared with the existing
  records only, never with the other records of the same import.
\<close>

theorem merge_distinct_keys:
  assumes "distinct (map TestDay.id (days st))" and "distinct (map TestDay.id (testDays b))"
    and "distinct (map Run.id (Dataset.runs st))" and "distinct (map Run.id (ImportedData.runs b))"
    and "distinct (map SetupSnapshot.id (Dataset.setups st))"
    and "distinct (map SetupSnapshot.id (ImportedData.setups b))"
    and "distinct (map TireSet.id (tires st))" and "distinct (map TireSet.id (tireSets b))"
  shows "distinct (map TestDay.id (days (handleDataImported st b))) \<and>
         distinct (map Run.id (Dataset.runs (handleDataImported st b))) \<and>
         distinct (map SetupSnapshot.id (Dataset.setups (handleDataImported st b))) \<and>
         distinct (map TireSet.id (tires (handleDataImported st b)))"
  using assms by (simp add: handleDataImported_def mergeNew_distinct)

theorem merge_distinct_keys_witness:
  "distinct (map SetupSnapshot.id [exampleSetup ''SET-1'' ''Baseline'']) \<and>
   distinct (map SetupSnapshot.id [exampleSetup ''SET-1'' ''Edited'', exampleSetup ''SET-2'' ''Wet'']) \<and>
   distinct (map SetupSnapshot.id (Dataset.setups (handleDataImported
      (emptyDataset \<lparr> Dataset.setups := [exampleSetup ''SET-1'' ''Baseline''] \<rparr>)
      (setupsOnly [exampleSetup ''SET-1'' ''Edited'', exampleSetup ''SET-2'' ''Wet''])))) \<and>
   length (Dataset.setups (handleDataImported
      (emptyDataset \<lparr> Dataset.setups := [exampleSetup ''SET-1'' ''Baseline''] \<rparr>)
      (setupsOnly [exampleSetup ''SET-1'' ''Edited'', exampleSetup ''SET-2'' ''Wet'']))) = 2"
  using merge_distinct_keys [of "emptyDataset \<lparr> Dataset.setups := [exampleSetup ''SET-1'' ''Baseline''] \<rparr>"
      "setupsOnly [exampleSetup ''SET-1'' ''Edited'', exampleSetup ''SET-2'' ''Wet'']"]
  by (simp add: handleDataImported_def mergeNew_def emptyDataset_def setupsOnly_def exampleSetup_def)

text \<open>
  Claim C8 as stated fails: the existing dataset is empty (its keys are trivially
  distinct), the import holds two setups with the key \<open>SET-1\<close>, and both are added.
\<close>

theorem merge_distinct_keys_counterexample:
  "distinct (map TestDay.id (days emptyDataset)) \<and>
   distinct (map Run.id (Dataset.runs emptyDataset)) \<and>
   distinct (map SetupSnapshot.id (Dataset.setups emptyDataset)) \<and>
   distinct (map TireSet.id (tires emptyDataset)) \<and>
   \<not> distinct (map SetupSnapshot.id (Dataset.setups (handleDataImported emptyDataset
        (setupsOnly [exampleSetup ''SET-1'' ''Baseline'', exampleSetup ''SET-1'' ''Baseline copy'']))))"
  by (simp add: handleDataImported_def mergeNew_def emptyDataset_def setupsOnly_def exampleSetup_def)

section \<open>Properties of the test-day import\<close>

lemma importTestDayData_runs:
  "ImportedData.runs (fst (importTestDayData clock imp td)) =
     map (\<lambda>(index, f).
            \<lparr> Run.id = ''local-'' @ TestDayFolder.name td @ ''-'' @ showNat (index + 1),
              testDayId = ''local-'' @ TestDayFolder.name td,
              runNumber = index + 1,
              timestamp = clock index,
              track = trackOf (TestDayFolder.name td),
              drivers = [''Unknown''],
              runNotes = Some (''Imported from '' @ XRKFile.name f),
              tags = Some [''imported'', ''xrk''],
              rest = None \<rparr>)
       (enumerate 0 (filter (\<lambda>f. XRKFile.path f \<notin> imp) (xrkFiles td)))"
  by (simp add: importTestDayData_def Let_def)

lemma importTestDayData_length:
  "length (ImportedData.runs (fst (importTestDayData clock imp td))) =
     length (filter (\<lambda>f. XRKFile.path f \<notin> imp) (xrkFiles td))"
  by (simp add: importTestDayData_runs)

lemma importTestDayData_nth:
  assumes "k < length (filter (\<lambda>f. XRKFile.path f \<notin> imp) (xrkFiles td))"
  shows "ImportedData.runs (fst (importTestDayData clock imp td)) ! k =
     \<lparr> Run.id = ''local-'' @ TestDayFolder.name td @ ''-'' @ showNat (k + 1),
       testDayId = ''local-'' @ TestDayFolder.name td,
       runNumber = k + 1,
       timestamp = clock k,
       track = trackOf (TestDayFolder.name td),
       drivers = [''Unknown''],
       runNotes = Some (''Imported from '' @ XRKFile.name (filter (\<lambda>f. XRKFile.path f \<notin> imp) (xrkFiles td) ! k)),
       tags = Some [''imported'', ''xrk''],
       rest = None \<rparr>"
  using assms by (simp add: importTestDayData_runs nth_enumerate_eq)





lemma importTestDayData_testDays:
  "testDays (fst (importTestDayData clock imp td)) =
     [\<lparr> TestDay.id = ''local-'' @ TestDayFolder.name td,
        date = dateOf (TestDayFolder.name td),
        track = trackOf (TestDayFolder.name td),
        sessionLead = None, weatherPlan = None, runPlan = None, crew = None,
        dayNotes = None, driveFolderUrl = None,
        runs = Some (length (filter (\<lambda>f. XRKFile.path f \<notin> imp) (xrkFiles td))) \<rparr>]"
  by (simp add: importTestDayData_def Let_def)

text \<open>
  Claim C10. In one import of a test day, the \<open>k\<close>-th telemetry file of the folder that
  is not yet in the set of imported paths (counting from 1, in the order of the folder's
  list) becomes the run with number \<open>k\<close> and id \<open>local-\<close> + folder name + \<open>-\<close> + \<open>k\<close>. The id is
  made of the folder name and that position only; the file enters the run through its
  name in the notes. So two different files can get the same id in successive imports
  of one folder: the last part of the statement is such a pair of imports.
\<close>

theorem run_ids_by_position:
  "length (ImportedData.runs (fst (importTestDayData clock imp td :: ('m, 'g) ImportedData \<times> string set))) =
     length (filter (\<lambda>f. XRKFile.path f \<notin> imp) (xrkFiles td)) \<and>
   (\<forall>k < length (filter (\<lambda>f. XRKFile.path f \<notin> imp) (xrkFiles td)).
      runNumber (ImportedData.runs (fst (importTestDayData clock imp td :: ('m, 'g) ImportedData \<times> string set)) ! k) = k + 1 \<and>
      Run.id (ImportedData.runs (fst (importTestDayData clock imp td :: ('m, 'g) ImportedData \<times> string set)) ! k) =
        ''local-'' @ TestDayFolder.name td @ ''-'' @ showNat (k + 1) \<and>
      runNotes (ImportedData.runs (fst (importTestDayData clock imp td :: ('m, 'g) ImportedData \<times> string set)) ! k) =
        Some (''Imported from '' @
              XRKFile.name (filter (\<lambda>f. XRKFile.path f \<notin> imp) (xrkFiles td) ! k))) \<and>
   (\<exists>r \<in> set (ImportedData.runs (fst (importTestDayData noon {} villaFolder :: (unit, unit) ImportedData \<times> string set))).
    \<exists>r' \<in> set (ImportedData.runs (fst (importTestDayData evening
                 (snd (importTestDayData noon {} villaFolder :: (unit, unit) ImportedData \<times> string set)) villaFolderLater :: (unit, unit) ImportedData \<times> string set))).
      Run.id r' = Run.id r \<and> runNotes r' \<noteq> runNotes r)"
proof -
  have "\<exists>r \<in> set (ImportedData.runs (fst (importTestDayData noon {} villaFolder :: (unit, unit) ImportedData \<times> string set))).
    \<exists>r' \<in> set (ImportedData.runs (fst (importTestDayData evening
                 (snd (importTestDayData noon {} villaFolder :: (unit, unit) ImportedData \<times> string set)) villaFolderLater :: (unit, unit) ImportedData \<times> string set))).
      Run.id r' = Run.id r \<and> runNotes r' \<noteq> runNotes r"
    by (simp add: dateOf_def trackOf_def markImported_def importTestDayData_def enumerate_eq_zip
        Let_def split_def splitFrom.simps showNat.simps digitChar_def noon_def evening_def
        villaFiles_def villaFolder_def toXRKFile_def fileNamed_def villaFilesLater_def
        villaFolderLater_def)
  then show ?thesis
    by (simp add: importTestDayData_length importTestDayData_nth)
qed

theorem run_ids_by_position_witness:
  "(1::nat) < length (filter (\<lambda>f. XRKFile.path f \<notin> {}) (xrkFiles villaFolder)) \<and>
   runNumber (ImportedData.runs (fst (importTestDayData noon {} villaFolder :: (unit, unit) ImportedData \<times> string set)) ! 1) = 2 \<and>
   Run.id (ImportedData.runs (fst (importTestDayData noon {} villaFolder :: (unit, unit) ImportedData \<times> string set)) ! 1) =
     ''local-2025-4-11 - Villa-2'' \<and>
   runNotes (ImportedData.runs (fst (importTestDayData noon {} villaFolder :: (unit, unit) ImportedData \<times> string set)) ! 1) =
     Some ''Imported from run2.xrk''"
proof -
  have k: "(1::nat) < length (filter (\<lambda>f. XRKFile.path f \<notin> {}) (xrkFiles villaFolder))"
    by (simp add: dateOf_def trackOf_def markImported_def importTestDayData_def enumerate_eq_zip
        Let_def split_def splitFrom.simps showNat.simps digitChar_def noon_def evening_def
        villaFiles_def villaFolder_def toXRKFile_def fileNamed_def)
  have "showNat (1 + 1) = ''2''" "TestDayFolder.name villaFolder = ''2025-4-11 - Villa''"
    "XRKFile.name (filter (\<lambda>f. XRKFile.path f \<notin> {}) (xrkFiles villaFolder) ! 1) = ''run2.xrk''"
    by (simp_all add: dateOf_def trackOf_def markImported_def importTestDayData_def enumerate_eq_zip
        Let_def split_def splitFrom.simps showNat.simps digitChar_def noon_def evening_def
        villaFiles_def villaFolder_def toXRKFile_def fileNamed_def)
  with k run_ids_by_position [of noon "{}" villaFolder, where 'm = unit and 'g = unit]
  show ?thesis by simp
qed




text \<open>
  Claim C4, as the code has it. No clock reading and no random value enters the keys:
  two imports of a folder from the same set of imported paths give the same test day,
  the same runs in the same order but for their \<open>timestamp\<close> fields, and the same set of
  marked paths, whatever the clock reads. The scan takes no clock at all: its result is
  a function of the file list.
\<close>

theorem import_same_but_timestamps:
  "testDays (fst (importTestDayData clock imp td :: ('m, 'g) ImportedData \<times> string set)) =
     testDays (fst (importTestDayData clock' imp td :: ('m, 'g) ImportedData \<times> string set)) \<and>
   map (\<lambda>r. r \<lparr> timestamp := [] \<rparr>) (ImportedData.runs (fst (importTestDayData clock imp td :: ('m, 'g) ImportedData \<times> string set))) =
     map (\<lambda>r. r \<lparr> timestamp := [] \<rparr>) (ImportedData.runs (fst (importTestDayData clock' imp td :: ('m, 'g) ImportedData \<times> string set))) \<and>
   map Run.id (ImportedData.runs (fst (importTestDayData clock imp td :: ('m, 'g) ImportedData \<times> string set))) =
     map Run.id (ImportedData.runs (fst (importTestDayData clock' imp td :: ('m, 'g) ImportedData \<times> string set))) \<and>
   ImportedData.setups (fst (importTestDayData clock imp td :: ('m, 'g) ImportedData \<times> string set)) =
     ImportedData.setups (fst (importTestDayData clock' imp td :: ('m, 'g) ImportedData \<times> string set)) \<and>
   tireSets (fst (importTestDayData clock imp td :: ('m, 'g) ImportedData \<times> string set)) =
     tireSets (fst (importTestDayData clock' imp td :: ('m, 'g) ImportedData \<times> string set)) \<and>
   snd (importTestDayData clock imp td :: ('m, 'g) ImportedData \<times> string set) = snd (importTestDayData clock' imp td :: ('m, 'g) ImportedData \<times> string set)"
  by (simp add: importTestDayData_def Let_def case_prod_beta)

text \<open>
  Claim C4 as stated fails: with another clock reading the runs differ in their
  timestamps, and a second import in the same session, after the first has marked the
  paths, has no runs.
\<close>

theorem import_deterministic_counterexample:
  "fst (importTestDayData noon {} villaFolder :: (unit, unit) ImportedData \<times> string set) \<noteq> fst (importTestDayData evening {} villaFolder :: (unit, unit) ImportedData \<times> string set) \<and>
   fst (importTestDayData noon (snd (importTestDayData noon {} villaFolder :: (unit, unit) ImportedData \<times> string set)) villaFolder :: (unit, unit) ImportedData \<times> string set)
     \<noteq> fst (importTestDayData noon {} villaFolder :: (unit, unit) ImportedData \<times> string set) \<and>
   ImportedData.runs (fst (importTestDayData noon
       (snd (importTestDayData noon {} villaFolder :: (unit, unit) ImportedData \<times> string set)) villaFolder :: (unit, unit) ImportedData \<times> string set)) = []"
  by (simp add: dateOf_def trackOf_def markImported_def importTestDayData_def enumerate_eq_zip
        Let_def split_def splitFrom.simps showNat.simps digitChar_def noon_def evening_def
        villaFiles_def villaFolder_def toXRKFile_def fileNamed_def)

text \<open>
  Claim C1 fails on the code. The folder \<open>2025-4-11 - Villa\<close> with two telemetry files
  is scanned and imported into the empty dataset; two files are added, the folder is
  scanned and imported again in the same session. The importer builds two runs for the
  two new files, with the ids that the runs of the first import have, and the merge drops
  both: the dataset has the two runs of the first import and no others. The two new
  files are not marked as imported either.
\<close>

theorem reimport_drops_new_runs:
  "fst (scanForTestDayFolders villaFiles) = [villaFolder] \<and>
   fst (scanForTestDayFolders villaFilesLater) = [villaFolderLater] \<and>
   map Run.id (Dataset.runs (snd (importAndMerge noon ({}, emptyDataset) villaFolder))) =
     [''local-2025-4-11 - Villa-1'', ''local-2025-4-11 - Villa-2''] \<and>
   map runNotes (ImportedData.runs (fst (importTestDayData evening
       (fst (importAndMerge noon ({}, emptyDataset) villaFolder)) villaFolderLater :: (unit, unit) ImportedData \<times> string set))) =
     [Some ''Imported from run3.xrk'', Some ''Imported from run4.xrk''] \<and>
   Dataset.runs (snd (importAndMerge evening
       (importAndMerge noon ({}, emptyDataset) villaFolder) villaFolderLater)) =
     Dataset.runs (snd (importAndMerge noon ({}, emptyDataset) villaFolder)) \<and>
   ''2025-4-11 - Villa/datadump/run3.xrk'' \<notin>
     fst (importAndMerge evening (importAndMerge noon ({}, emptyDataset) villaFolder) villaFolderLater) \<and>
   ''2025-4-11 - Villa/datadump/run4.xrk'' \<notin>
     fst (importAndMerge evening (importAndMerge noon ({}, emptyDataset) villaFolder) villaFolderLater)"
  by (simp add: toLowerCase_def endsWith_def split_def splitFrom.simps matchTestDayFolder_def
        testDayPattern_def candidates_def isDigit_def isSpace_def isLineTerminator_def
        findTestDayFolder_def scanFile_def collectFolder_def processFolder_def
        scanForTestDayFolders_def Let_def dateOf_def trackOf_def markImported_def
        importTestDayData_def enumerate_eq_zip showNat.simps digitChar_def importAndMerge_def
        handleDataImported_def mergeNew_def emptyDataset_def noon_def evening_def villaFiles_def
        villaFolder_def toXRKFile_def fileNamed_def villaFilesLater_def villaFolderLater_def)

section \<open>Properties of the setup import\<close>






end
